theory Spec2Isabelle
  imports Complex_Main
begin

section \<open>Integers, values and errors of the program\<close>

text \<open>
  The program is Go. Its \<^verbatim>\<open>int\<close> has 64 bits and its arithmetic wraps around: \<open>i64\<close>
  is the value a result has in that range. The wrap-around is written out where a value
  far from a pixel size reaches the arithmetic, in the bar width: the width of a category
  slot is \<^verbatim>\<open>int(x1 - x0)\<close> of two floats, which with no category is the least integer
  of the range. With no category every item is skipped, so that width reaches no other
  arithmetic; the other integers of the two files are pixel coordinates, pixel sizes and
  slice lengths, modelled by \<^typ>\<open>int\<close>. Two operators do not agree with the ones of HOL
  on negative numbers and are written out: Go's \<^verbatim>\<open>/\<close> rounds towards zero (HOL's
  \<open>div\<close> rounds down), and Go's \<^verbatim>\<open>>>\<close> on a signed integer is the arithmetic shift,
  which rounds down. In Go \<^verbatim>\<open>>>\<close> binds tighter than \<^verbatim>\<open>+\<close>, so \<^verbatim>\<open>x + w>>1\<close> is
  \<^verbatim>\<open>x + (w>>1)\<close>.
\<close>

definition i64 :: "int \<Rightarrow> int" where
  "i64 x = (x + 2 ^ 63) mod 2 ^ 64 - 2 ^ 63"

definition quo :: "int \<Rightarrow> int \<Rightarrow> int" where
  "quo a b = sgn a * sgn b * (\<bar>a\<bar> div \<bar>b\<bar>)"

definition shr :: "int \<Rightarrow> nat \<Rightarrow> int" where
  "shr a n = drop_bit n a"

text \<open>
  A \<^verbatim>\<open>float64\<close> is never computed with in the two files: it is handed to functions of
  other files. An \<^verbatim>\<open>error\<close> is its message. A run-time panic is a value of its own.
\<close>

type_synonym float64 = real

type_synonym error = string

datatype panic = DivideByZero | IndexOutOfRange

section \<open>draw.go: the coordinate box\<close>

text \<open>
  \<^verbatim>\<open>chart.Box\<close> is a struct of the go-chart library; the four bounds are the fields the
  repository reads and writes. \<^verbatim>\<open>Clone\<close> copies the struct.
\<close>

record chartBox =
  Top :: int
  Left :: int
  Right :: int
  Bottom :: int

definition BoxZero :: chartBox where
  "BoxZero = \<lparr>Top = 0, Left = 0, Right = 0, Bottom = 0\<rparr>"

definition Clone :: "chartBox \<Rightarrow> chartBox" where
  "Clone b = \<lparr>Top = Top b, Left = Left b, Right = Right b, Bottom = Bottom b\<rparr>"

text \<open>
  A \<^verbatim>\<open>*Draw\<close> is an address, \<^verbatim>\<open>nil\<close> is \<open>None\<close>, and the heap gives the struct at every
  address (Go has no dangling pointer). A \<^verbatim>\<open>chart.Renderer\<close> and a \<^verbatim>\<open>*truetype.Font\<close>
  are references too: two boxes share a renderer when their \<open>Render\<close> fields are equal.
\<close>

type_synonym addr = nat

type_synonym renderer = nat

type_synonym font = "nat option"

record Draw =
  Render :: "renderer option"
  Box :: chartBox
  Font :: font
  parent :: "addr option"

type_synonym heap = "addr \<Rightarrow> Draw"

record DrawOption =
  Type :: string
  Parent :: "addr option"
  Width :: int
  Height :: int

text \<open>
  An \<^verbatim>\<open>Option\<close> is a function that updates the box under construction or fails.
\<close>

type_synonym Option = "Draw \<Rightarrow> error + Draw"

definition PaddingOption :: "chartBox \<Rightarrow> Option" where
  "PaddingOption padding d =
     Inr (d\<lparr>Box := (Box d)\<lparr>
       Left := Left (Box d) + Left padding,
       Top := Top (Box d) + Top padding,
       Right := Right (Box d) - Right padding,
       Bottom := Bottom (Box d) - Bottom padding\<rparr>\<rparr>)"

text \<open>
  The go-chart library, as \<^verbatim>\<open>NewDraw\<close> uses it: the default font and the two
  constructors of a renderer, which may fail.
\<close>

record chart_lib =
  GetDefaultFont :: font
  SVG :: "int \<Rightarrow> int \<Rightarrow> error + renderer"
  PNG :: "int \<Rightarrow> int \<Rightarrow> error + renderer"

fun apply_opts :: "Option list \<Rightarrow> Draw \<Rightarrow> error + Draw" where
  "apply_opts [] d = Inr d"
| "apply_opts (f # fs) d = (case f d of Inl err \<Rightarrow> Inl err | Inr d' \<Rightarrow> apply_opts fs d')"

definition NewDraw :: "chart_lib \<Rightarrow> heap \<Rightarrow> DrawOption \<Rightarrow> Option list \<Rightarrow> error + Draw" where
  "NewDraw lib h opt opts =
    (if Parent opt = None \<and> (Width opt \<le> 0 \<or> Height opt \<le> 0)
     then Inl ''parent and width/height can not be nil''
     else
       let d0 = \<lparr>Render = None, Box = BoxZero, Font = GetDefaultFont lib, parent = None\<rparr>;
           width = Width opt;
           height = Height opt;
           d1 = (case Parent opt of
                   None \<Rightarrow> d0
                 | Some p \<Rightarrow> d0\<lparr>parent := Some p, Render := Render (h p), Box := Clone (Box (h p))\<rparr>);
           d2 = (if width \<noteq> 0 \<and> height \<noteq> 0
                 then d1\<lparr>Box := (Box d1)\<lparr>Right := width + Left (Box d1),
                                          Bottom := height + Top (Box d1)\<rparr>\<rparr>
                 else d1)
       in if parent d2 = None
          then (case (if Type opt = ''png'' then PNG lib else SVG lib) (Right (Box d2)) (Bottom (Box d2)) of
                  Inl err \<Rightarrow> Inl err
                | Inr r \<Rightarrow> apply_opts opts (d2\<lparr>Render := Some r\<rparr>))
          else apply_opts opts d2)"

definition Draw_Parent :: "heap \<Rightarrow> addr \<Rightarrow> addr option" where
  "Draw_Parent h d = parent (h d)"

text \<open>
  \<^verbatim>\<open>Top\<close>: the loop \<^verbatim>\<open>for i := 50; i > 0; i--\<close> is the recursion on \<open>i\<close>. The second
  component of the result counts how often the loop ran \<^verbatim>\<open>t = t.parent\<close>.
\<close>

fun Top_loop :: "heap \<Rightarrow> nat \<Rightarrow> addr \<Rightarrow> addr \<times> nat" where
  "Top_loop h 0 t = (t, 0)"
| "Top_loop h (Suc i) t =
     (case parent (h t) of
        None \<Rightarrow> (t, 0)
      | Some p \<Rightarrow> (case Top_loop h i p of (r, n) \<Rightarrow> (r, Suc n)))"

definition Draw_Top :: "heap \<Rightarrow> addr \<Rightarrow> addr option" where
  "Draw_Top h d =
     (case parent (h d) of
        None \<Rightarrow> None
      | Some t \<Rightarrow> Some (fst (Top_loop h 50 t)))"

definition Top_hops :: "heap \<Rightarrow> addr \<Rightarrow> nat" where
  "Top_hops h d =
     (case parent (h d) of
        None \<Rightarrow> 0
      | Some t \<Rightarrow> snd (Top_loop h 50 t))"

text \<open>The \<open>k\<close>-th ancestor of a box, when the chain is that long.\<close>

fun ancestor :: "heap \<Rightarrow> nat \<Rightarrow> addr \<Rightarrow> addr option" where
  "ancestor h 0 d = Some d"
| "ancestor h (Suc k) d = (case parent (h d) of None \<Rightarrow> None | Some p \<Rightarrow> ancestor h k p)"

text \<open>
  The primitives. The state is the recording of the calls that the renderer of the box has
  received; each primitive returns the recording with its calls added. \<^verbatim>\<open>Point\<close> and
  \<^verbatim>\<open>LineStyle\<close> are declared in other files: a point is a pair of pixel coordinates, and of a
  line style \<^verbatim>\<open>lineStroke\<close> uses whether its style draws a stroke and the stroke options it
  writes to the renderer.
\<close>

record Point =
  X :: int
  Y :: int

datatype Color = RGBA nat nat nat nat

fun IsZero :: "Color \<Rightarrow> bool" where
  "IsZero (RGBA r g b a) = (r = 0 \<and> g = 0 \<and> b = 0 \<and> a = 0)"

record LineStyle =
  ShouldDrawStroke :: bool
  StrokeOptions :: nat

datatype renderer_call =
    MoveTo int int
  | LineTo int int
  | Circle float64 int int
  | Text string int int
  | WriteDrawingOptionsToRenderer nat
  | WriteToRenderer Color
  | Stroke
  | FillStroke

definition moveTo :: "Draw \<Rightarrow> int \<Rightarrow> int \<Rightarrow> renderer_call list \<Rightarrow> renderer_call list" where
  "moveTo d x y r = r @ [MoveTo (x + Left (Box d)) (y + Top (Box d))]"

definition lineTo :: "Draw \<Rightarrow> int \<Rightarrow> int \<Rightarrow> renderer_call list \<Rightarrow> renderer_call list" where
  "lineTo d x y r = r @ [LineTo (x + Left (Box d)) (y + Top (Box d))]"

definition circle :: "Draw \<Rightarrow> float64 \<Rightarrow> int \<Rightarrow> int \<Rightarrow> renderer_call list \<Rightarrow> renderer_call list" where
  "circle d radius x y r = r @ [Circle radius (x + Left (Box d)) (y + Top (Box d))]"

definition Draw_text :: "Draw \<Rightarrow> string \<Rightarrow> int \<Rightarrow> int \<Rightarrow> renderer_call list \<Rightarrow> renderer_call list" where
  "Draw_text d body x y r = r @ [Text body (x + Left (Box d)) (y + Top (Box d))]"

fun lineStroke_loop :: "Draw \<Rightarrow> nat \<Rightarrow> Point list \<Rightarrow> renderer_call list \<Rightarrow> renderer_call list" where
  "lineStroke_loop d index [] r = r"
| "lineStroke_loop d index (point # points) r =
     lineStroke_loop d (Suc index) points
       (if index = 0 then moveTo d (X point) (Y point) r else lineTo d (X point) (Y point) r)"

definition lineStroke :: "Draw \<Rightarrow> Point list \<Rightarrow> LineStyle \<Rightarrow> renderer_call list \<Rightarrow> renderer_call list" where
  "lineStroke d points style r =
     (if \<not> ShouldDrawStroke style then r
      else lineStroke_loop d 0 points (r @ [WriteDrawingOptionsToRenderer (StrokeOptions style)]) @ [Stroke])"

definition setBackground :: "Draw \<Rightarrow> int \<Rightarrow> int \<Rightarrow> Color \<Rightarrow> renderer_call list \<Rightarrow> renderer_call list" where
  "setBackground d width height color r =
     r @ [WriteToRenderer color, MoveTo 0 0, LineTo width 0, LineTo width height,
          LineTo 0 height, LineTo 0 0, FillStroke]"

section \<open>The bar chart\<close>

text \<open>
  The structs of the bar chart's file and the fields \<^verbatim>\<open>render\<close> reads of the structs declared
  in other files. Where two structs have a field of the same name, the field carries
  its struct's name here. \<^verbatim>\<open>Style{FillColor: c}\<close> is the zero style with the field set.
\<close>

record Style =
  FillColor :: Color
  FontColor :: Color
  FontSize :: float64
  StyleFont :: font

definition StyleZero :: Style where
  "StyleZero = \<lparr>FillColor = RGBA 0 0 0 0, FontColor = RGBA 0 0 0 0, FontSize = 0, StyleFont = None\<rparr>"

record SeriesData =
  Value :: float64
  DataStyle :: Style

record SeriesLabel =
  Show :: bool
  Distance :: int
  Formatter :: string
  LabelColor :: Color

record Series =
  series_index :: int
  AxisIndex :: int
  Data :: "SeriesData list"
  Label :: SeriesLabel
  Name :: string

record barChartLabelRenderOption =
  LabelText :: string
  LabelStyle :: Style
  LabelX :: int
  LabelY :: int

text \<open>
  What the two overlay painters are given by \<^verbatim>\<open>Add\<close>. The range of a mark line is the
  range of the series' axis, named here by the axis index.
\<close>

record markPointRenderOption =
  PointFillColor :: Color
  PointFont :: font
  PointSeries :: Series
  Points :: "Point list"

record markLineRenderOption =
  LineFillColor :: Color
  LineFontColor :: Color
  LineStrokeColor :: Color
  LineFont :: font
  LineSeries :: Series
  LineRange :: int

text \<open>
  The calls \<^verbatim>\<open>render\<close> makes on the series painter, in the order it makes them.
\<close>

datatype painter_call =
    OverrideDrawingStyle Style
  | Rect chartBox
  | MeasureText string
  | OverrideTextStyle Style
  | Painter_Text string int int

fun is_Rect :: "painter_call \<Rightarrow> bool" where
  "is_Rect (Rect b) = True"
| "is_Rect c = False"

fun is_Text :: "painter_call \<Rightarrow> bool" where
  "is_Text (Painter_Text s x y) = True"
| "is_Text c = False"

text \<open>
  What \<^verbatim>\<open>render\<close> takes from other files, as parameters: of the x range its divide count,
  the width \<^verbatim>\<open>int(x1 - x0)\<close> of its first division and the values of \<^verbatim>\<open>AutoDivide\<close>; the
  height of the series painter; \<^verbatim>\<open>int(yRange.getHeight(v))\<close> for the range of an axis index;
  the theme; the font of the options; the constant \<^verbatim>\<open>labelFontSize\<close>; the label formatter;
  the width of a measured text; the two overlay painters' \<^verbatim>\<open>doRender\<close> on what was added
  to them; and the box of the painter. Each of them returns: the panics of a run are those
  of \<^verbatim>\<open>render\<close>'s own division and slice index.
\<close>

record render_deps =
  divideCount :: int
  GetRange0_width :: int
  AutoDivide :: "int list"
  seriesPainter_Height :: int
  getHeight :: "int \<Rightarrow> float64 \<Rightarrow> int"
  GetSeriesColor :: "int \<Rightarrow> Color"
  GetTextColor :: Color
  opt_Font :: font
  labelFontSize :: float64
  ValueLabelFormatter :: "string list \<Rightarrow> string \<Rightarrow> int \<Rightarrow> float64 \<Rightarrow> int \<Rightarrow> string"
  MeasureText_Width :: "string \<Rightarrow> int"
  doRender :: "markPointRenderOption list \<Rightarrow> markLineRenderOption list \<Rightarrow> error option"
  p_box :: chartBox

text \<open>
  The state of a run: the calls made on the series painter, the deferred labels, what the
  two overlay painters were given, and the panic that stopped the run, if one did.
\<close>

record render_state =
  calls :: "painter_call list"
  labelRenderOptions :: "barChartLabelRenderOption list"
  markPoints :: "markPointRenderOption list"
  markLines :: "markLineRenderOption list"
  panicked :: "panic option"

text \<open>The local variables of \<^verbatim>\<open>render\<close> that its loops only read.\<close>

record render_locals =
  l_margin :: int
  l_barMargin :: int
  l_barWidth :: int
  l_barMaxHeight :: int
  l_seriesNames :: "string list"

definition margins :: "int \<Rightarrow> int \<times> int" where
  "margins width =
     (if width < 20 then (2, 2)
      else if width < 50 then (5, 3)
      else (10, 5))"

text \<open>
  \<^verbatim>\<open>barWidth := (width - 2*margin - barMargin*(seriesCount-1)) / len(seriesList)\<close>: every
  product and difference wraps around, and Go panics when the divisor is zero. The
  divisor is the length of a slice, at least 1 where the division is made, so the quotient
  of a value of the range is in the range.
\<close>

definition barWidth_of :: "int \<Rightarrow> nat \<Rightarrow> panic + int" where
  "barWidth_of width n =
     (let (margin, barMargin) = margins width;
          seriesCount = int n
      in if int n = 0 then Inl DivideByZero
         else Inr (quo (i64 (i64 (width - i64 (2 * margin))
                             - i64 (barMargin * i64 (seriesCount - 1))))
                       (int n)))"

text \<open>One pass of the inner loop for an item that is drawn.\<close>

definition render_item ::
  "render_deps \<Rightarrow> render_locals \<Rightarrow> nat \<Rightarrow> Series \<Rightarrow> nat \<Rightarrow> SeriesData \<Rightarrow>
   Point list \<Rightarrow> render_state \<Rightarrow> Point list \<times> render_state" where
  "render_item e l index series j item points st =
     (let x = AutoDivide e ! j;
          x = x + l_margin l;
          x = (if index \<noteq> 0 then x + int index * (l_barWidth l + l_barMargin l) else x);
          h = getHeight e (AxisIndex series) (Value item);
          seriesColor = GetSeriesColor e (series_index series);
          fillColor = (if \<not> IsZero (FillColor (DataStyle item))
                       then FillColor (DataStyle item) else seriesColor);
          top = l_barMaxHeight l - h;
          st = st\<lparr>calls := calls st @
                 [OverrideDrawingStyle (StyleZero\<lparr>FillColor := fillColor\<rparr>),
                  Rect \<lparr>Top = top, Left = x, Right = x + l_barWidth l, Bottom = l_barMaxHeight l - 1\<rparr>]\<rparr>;
          points = points[j := \<lparr>X = x + shr (l_barWidth l) 1, Y = top\<rparr>];
          points = points[j := \<lparr>X = x + shr (l_barWidth l) 1, Y = top\<rparr>]
      in if \<not> Show (Label series) then (points, st)
         else
           let distance = Distance (Label series);
               distance = (if distance = 0 then 5 else distance);
               text = ValueLabelFormatter e (l_seriesNames l) (Formatter (Label series))
                        (int index) (Value item) (- 1);
               labelStyle = \<lparr>FillColor = RGBA 0 0 0 0, FontColor = GetTextColor e,
                              FontSize = labelFontSize e, StyleFont = opt_Font e\<rparr>;
               labelStyle = (if \<not> IsZero (LabelColor (Label series))
                             then labelStyle\<lparr>FontColor := LabelColor (Label series)\<rparr>
                             else labelStyle);
               textBox_Width = MeasureText_Width e text;
               st = st\<lparr>calls := calls st @ [MeasureText text]\<rparr>;
               st = st\<lparr>labelRenderOptions := labelRenderOptions st @
                      [\<lparr>LabelText = text, LabelStyle = labelStyle,
                        LabelX = x + shr (l_barWidth l - textBox_Width) 1,
                        LabelY = l_barMaxHeight l - h - distance\<rparr>]\<rparr>
           in (points, st))"

text \<open>
  The inner loop \<^verbatim>\<open>for j, item := range series.Data\<close>. An item at or beyond the divide
  count is skipped; \<^verbatim>\<open>divideValues[j]\<close> panics beyond the slice.
\<close>

fun render_items ::
  "render_deps \<Rightarrow> render_locals \<Rightarrow> nat \<Rightarrow> Series \<Rightarrow> nat \<Rightarrow> SeriesData list \<Rightarrow>
   Point list \<Rightarrow> render_state \<Rightarrow> Point list \<times> render_state" where
  "render_items e l index series j [] points st = (points, st)"
| "render_items e l index series j (item # items) points st =
     (if divideCount e \<le> int j then render_items e l index series (Suc j) items points st
      else if length (AutoDivide e) \<le> j then (points, st\<lparr>panicked := Some IndexOutOfRange\<rparr>)
      else (case render_item e l index series j item points st of
              (points', st') \<Rightarrow> render_items e l index series (Suc j) items points' st'))"

text \<open>The outer loop \<^verbatim>\<open>for index := range seriesList\<close>.\<close>

fun render_series ::
  "render_deps \<Rightarrow> render_locals \<Rightarrow> nat \<Rightarrow> Series list \<Rightarrow> render_state \<Rightarrow> render_state" where
  "render_series e l index [] st = st"
| "render_series e l index (series # rest) st =
     (let seriesColor = GetSeriesColor e (series_index series);
          points0 = replicate (length (Data series)) \<lparr>X = 0, Y = 0\<rparr>
      in case render_items e l index series 0 (Data series) points0 st of
           (points, st1) \<Rightarrow>
             if panicked st1 \<noteq> None then st1
             else render_series e l (Suc index) rest
                    (st1\<lparr>markPoints := markPoints st1 @
                           [\<lparr>PointFillColor = seriesColor, PointFont = opt_Font e,
                             PointSeries = series, Points = points\<rparr>],
                         markLines := markLines st1 @
                           [\<lparr>LineFillColor = seriesColor, LineFontColor = GetTextColor e,
                             LineStrokeColor = seriesColor, LineFont = opt_Font e,
                             LineSeries = series, LineRange = AxisIndex series\<rparr>]\<rparr>))"

text \<open>The loop that draws the deferred labels.\<close>

fun flush_labels :: "barChartLabelRenderOption list \<Rightarrow> painter_call list \<Rightarrow> painter_call list" where
  "flush_labels [] cs = cs"
| "flush_labels (labelOpt # rest) cs =
     flush_labels rest
       (cs @ [OverrideTextStyle (LabelStyle labelOpt),
              Painter_Text (LabelText labelOpt) (LabelX labelOpt) (LabelY labelOpt)])"

text \<open>
  \<^verbatim>\<open>render\<close>: first the local variables that the loops read (the division in
  \<^verbatim>\<open>barWidth\<close> may panic), then the two loops, the deferred labels and the overlay
  painters. The result is the state of the run and either the panic or the pair Go returns.
\<close>

definition initial_state :: render_state where
  "initial_state =
     \<lparr>calls = [], labelRenderOptions = [], markPoints = [], markLines = [], panicked = None\<rparr>"

definition layout :: "render_deps \<Rightarrow> Series list \<Rightarrow> panic + render_locals" where
  "layout e seriesList =
     (let width = GetRange0_width e;
          (margin, barMargin) = margins width
      in case barWidth_of width (length seriesList) of
           Inl p \<Rightarrow> Inl p
         | Inr barWidth \<Rightarrow>
             Inr \<lparr>l_margin = margin, l_barMargin = barMargin, l_barWidth = barWidth,
                  l_barMaxHeight = seriesPainter_Height e,
                  l_seriesNames = map Name seriesList\<rparr>)"

definition render ::
  "render_deps \<Rightarrow> Series list \<Rightarrow> render_state \<times> (panic + chartBox \<times> error option)" where
  "render e seriesList =
     (case layout e seriesList of
        Inl p \<Rightarrow> (initial_state\<lparr>panicked := Some p\<rparr>, Inl p)
      | Inr l \<Rightarrow>
          let st = render_series e l 0 seriesList initial_state
          in case panicked st of
               Some p \<Rightarrow> (st, Inl p)
             | None \<Rightarrow>
                 let st = st\<lparr>calls := flush_labels (labelRenderOptions st) (calls st)\<rparr>
                 in case doRender e (markPoints st) (markLines st) of
                      Some err \<Rightarrow> (st, Inr (BoxZero, Some err))
                    | None \<Rightarrow> (st, Inr (p_box e, None)))"

text \<open>
  What the outer loop hands to the two overlay painters after the items of a series.
\<close>

definition registered :: "render_deps \<Rightarrow> Series \<Rightarrow> Point list \<Rightarrow> render_state \<Rightarrow> render_state" where
  "registered e series points st =
     st\<lparr>markPoints := markPoints st @
           [\<lparr>PointFillColor = GetSeriesColor e (series_index series), PointFont = opt_Font e,
             PointSeries = series, Points = points\<rparr>],
         markLines := markLines st @
           [\<lparr>LineFillColor = GetSeriesColor e (series_index series), LineFontColor = GetTextColor e,
             LineStrokeColor = GetSeriesColor e (series_index series), LineFont = opt_Font e,
             LineSeries = series, LineRange = AxisIndex series\<rparr>]\<rparr>"

section \<open>The geometry as the specification states it\<close>

text \<open>
  The left edge and the top of the bar of the item at category \<open>j\<close> of the series at
  position \<open>index\<close>, in the words of the specification: \<open>x = boundary[j] + margin +
  seriesIndex * (barWidth + barMargin)\<close> and \<open>top = plotAreaHeight - h\<close>. The theorems
  compare what \<^verbatim>\<open>render\<close> computes with them.
\<close>

definition bar_left :: "render_deps \<Rightarrow> render_locals \<Rightarrow> nat \<Rightarrow> nat \<Rightarrow> int" where
  "bar_left e l index j = AutoDivide e ! j + l_margin l + int index * (l_barWidth l + l_barMargin l)"

definition bar_top :: "render_deps \<Rightarrow> render_locals \<Rightarrow> Series \<Rightarrow> SeriesData \<Rightarrow> int" where
  "bar_top e l series item = l_barMaxHeight l - getHeight e (AxisIndex series) (Value item)"

section \<open>Inputs of the examples\<close>

text \<open>
  A chain of boxes in which box \<open>0\<close> is the root and the parent of box \<open>a + 1\<close> is box
  \<open>a\<close>; two boxes that are each other's parent; a box at offset \<open>(10, 20)\<close>.
\<close>

definition ex_lib :: chart_lib where
  "ex_lib = \<lparr>GetDefaultFont = Some 1, SVG = (\<lambda>w h. Inr 0), PNG = (\<lambda>w h. Inr 1)\<rparr>"

definition ex_chain :: heap where
  "ex_chain a =
     \<lparr>Render = Some 7, Box = \<lparr>Top = 20, Left = 10, Right = 400, Bottom = 300\<rparr>, Font = Some 1,
      parent = (if a = 0 then None else Some (a - 1))\<rparr>"

definition ex_cycle :: heap where
  "ex_cycle a =
     \<lparr>Render = Some 7, Box = \<lparr>Top = 0, Left = 0, Right = 400, Bottom = 300\<rparr>, Font = Some 1,
      parent = (if a = 0 then Some 1 else Some 0)\<rparr>"

definition ex_box :: Draw where
  "ex_box = \<lparr>Render = Some 7, Box = \<lparr>Top = 20, Left = 10, Right = 400, Bottom = 300\<rparr>,
             Font = Some 1, parent = Some 0\<rparr>"

text \<open>
  A plot with two categories and category slots 100 wide, and the same plot with slots
  3 wide, where the bars get the width \<open>-1\<close>. A series with three items that shows its
  labels and a series with two items that shows none.
\<close>

definition ex_deps :: render_deps where
  "ex_deps =
     \<lparr>divideCount = 2, GetRange0_width = 100, AutoDivide = [0, 100, 200],
      seriesPainter_Height = 150, getHeight = (\<lambda>axis v. \<lfloor>v\<rfloor>),
      GetSeriesColor = (\<lambda>i. RGBA 84 112 198 255), GetTextColor = RGBA 70 70 70 255,
      opt_Font = Some 1, labelFontSize = 10,
      ValueLabelFormatter = (\<lambda>names formatter i v d. ''v''),
      MeasureText_Width = (\<lambda>s. 7), doRender = (\<lambda>ps ls. None),
      p_box = \<lparr>Top = 0, Left = 0, Right = 200, Bottom = 150\<rparr>\<rparr>"

definition ex_labelled :: Series where
  "ex_labelled =
     \<lparr>series_index = 0, AxisIndex = 0,
      Data = [\<lparr>Value = 75, DataStyle = StyleZero\<rparr>, \<lparr>Value = 150, DataStyle = StyleZero\<rparr>,
              \<lparr>Value = 37, DataStyle = StyleZero\<rparr>],
      Label = \<lparr>Show = True, Distance = 0, Formatter = [], LabelColor = RGBA 0 0 0 0\<rparr>,
      Name = ''a''\<rparr>"

definition ex_plain :: Series where
  "ex_plain =
     \<lparr>series_index = 1, AxisIndex = 0,
      Data = [\<lparr>Value = 30, DataStyle = StyleZero\<rparr>, \<lparr>Value = 150, DataStyle = StyleZero\<rparr>],
      Label = \<lparr>Show = False, Distance = 0, Formatter = [], LabelColor = RGBA 0 0 0 0\<rparr>,
      Name = ''b''\<rparr>"

definition ex_narrow :: render_deps where
  "ex_narrow = ex_deps\<lparr>GetRange0_width := 3, AutoDivide := [0, 3, 6]\<rparr>"

section \<open>The coordinate box: creation\<close>

lemma Clone_id: "Clone b = b"
  by (simp add: Clone_def)

lemma NewDraw_parent:
  assumes "Parent opt = Some p"
  shows "NewDraw lib h opt opts =
    apply_opts opts
      \<lparr>Render = Render (h p),
       Box = (if Width opt \<noteq> 0 \<and> Height opt \<noteq> 0
              then (Box (h p))\<lparr>Right := Width opt + Left (Box (h p)),
                                 Bottom := Height opt + Top (Box (h p))\<rparr>
              else Box (h p)),
       Font = GetDefaultFont lib, parent = Some p\<rparr>"
  using assms by (simp add: NewDraw_def Clone_id Let_def)

text \<open>
  Claim C5. A box created from a parent with a non-zero width \<open>W\<close> and a non-zero height
  \<open>H\<close> has the bounds \<open>[parent.left, parent.top, parent.left + W, parent.top + H]\<close> and
  the renderer of the parent. The box is the one \<^verbatim>\<open>NewDraw\<close> returns when it is given no
  further option, and the one the further options are applied to when it is given some.
\<close>

theorem NewDraw_carves_subregion:
  assumes "Parent opt = Some p" and "Width opt \<noteq> 0" and "Height opt \<noteq> 0"
  shows "\<exists>d. NewDraw lib h opt [] = Inr d
    \<and> Box d = \<lparr>Top = Top (Box (h p)), Left = Left (Box (h p)),
                Right = Left (Box (h p)) + Width opt, Bottom = Top (Box (h p)) + Height opt\<rparr>
    \<and> Render d = Render (h p)
    \<and> parent d = Some p
    \<and> (\<forall>opts. NewDraw lib h opt opts = apply_opts opts d)"
  using assms by (simp add: NewDraw_parent)

theorem NewDraw_carves_subregion_witness:
  "Parent \<lparr>Type = ''svg'', Parent = Some 3, Width = 100, Height = 50\<rparr> = Some 3
   \<and> Width \<lparr>Type = ''svg'', Parent = Some 3, Width = 100, Height = 50\<rparr> \<noteq> 0
   \<and> Height \<lparr>Type = ''svg'', Parent = Some 3, Width = 100, Height = 50\<rparr> \<noteq> 0
   \<and> (\<exists>d. NewDraw ex_lib ex_chain \<lparr>Type = ''svg'', Parent = Some 3, Width = 100, Height = 50\<rparr> [] = Inr d
        \<and> Box d = \<lparr>Top = 20, Left = 10, Right = 110, Bottom = 70\<rparr>
        \<and> Render d = Some 7)"
  using NewDraw_carves_subregion
    [of "\<lparr>Type = ''svg'', Parent = Some 3, Width = 100, Height = 50\<rparr>" 3 ex_lib ex_chain]
  by (auto simp add: ex_chain_def)

text \<open>
  Claim C9. When a box is created from a parent and the width or the height of the options
  is zero, the four bounds of the new box are those of the clone of the parent's bounds;
  the bounds differ from the clone only if both are non-zero.
\<close>

theorem NewDraw_keeps_parent_bounds:
  assumes "Parent opt = Some p"
  shows "\<exists>d. NewDraw lib h opt [] = Inr d
    \<and> (Width opt = 0 \<or> Height opt = 0 \<longrightarrow>
          Box d = Clone (Box (h p))
          \<and> Top (Box d) = Top (Box (h p)) \<and> Left (Box d) = Left (Box (h p))
          \<and> Right (Box d) = Right (Box (h p)) \<and> Bottom (Box d) = Bottom (Box (h p)))
    \<and> (Box d \<noteq> Clone (Box (h p)) \<longrightarrow> Width opt \<noteq> 0 \<and> Height opt \<noteq> 0)"
  using assms by (auto simp add: NewDraw_parent Clone_id)

theorem NewDraw_keeps_parent_bounds_witness:
  "Parent \<lparr>Type = ''svg'', Parent = Some 3, Width = 100, Height = 0\<rparr> = Some 3
   \<and> (\<exists>d. NewDraw ex_lib ex_chain \<lparr>Type = ''svg'', Parent = Some 3, Width = 100, Height = 0\<rparr> [] = Inr d
        \<and> Height \<lparr>Type = ''svg'', Parent = Some 3, Width = 100, Height = 0\<rparr> = 0
        \<and> Box d = \<lparr>Top = 20, Left = 10, Right = 400, Bottom = 300\<rparr>)"
  using NewDraw_keeps_parent_bounds
    [of "\<lparr>Type = ''svg'', Parent = Some 3, Width = 100, Height = 0\<rparr>" 3 ex_lib ex_chain]
  by (auto simp add: ex_chain_def Clone_id)

section \<open>The coordinate box: the walk to the root\<close>

lemma Top_loop_hops: "snd (Top_loop h i t) \<le> i"
proof (induction i arbitrary: t)
  case 0
  then show ?case by simp
next
  case (Suc i)
  show ?case
  proof (cases "parent (h t)")
    case None
    then show ?thesis by simp
  next
    case (Some p)
    then show ?thesis using Suc.IH[of p] by (simp add: split_beta)
  qed
qed

lemma Top_loop_root:
  "ancestor h k t = Some r \<Longrightarrow> parent (h r) = None \<Longrightarrow> k \<le> i \<Longrightarrow> fst (Top_loop h i t) = r"
proof (induction i arbitrary: k t)
  case 0
  then show ?case by simp
next
  case (Suc i)
  show ?case
  proof (cases k)
    case 0
    with Suc.prems show ?thesis by simp
  next
    case (Suc k')
    with Suc.prems obtain p where p: "parent (h t) = Some p" "ancestor h k' p = Some r"
      by (auto split: option.splits)
    from Suc.IH[OF p(2) Suc.prems(2)] Suc.prems(3) \<open>k = Suc k'\<close>
    have "fst (Top_loop h i p) = r" by simp
    with p(1) show ?thesis by (simp add: split_beta)
  qed
qed

lemma Top_loop_full:
  "ancestor h (Suc i) t \<noteq> None \<Longrightarrow> Top_loop h i t = (the (ancestor h i t), i)"
proof (induction i arbitrary: t)
  case 0
  then show ?case by simp
next
  case (Suc i)
  then obtain p where p: "parent (h t) = Some p" "ancestor h (Suc i) p \<noteq> None"
    by (auto split: option.splits)
  from Suc.IH[OF p(2)] p(1) show ?case by simp
qed

lemma ex_cycle_ancestor: "ancestor ex_cycle k a \<noteq> None"
  by (induction k arbitrary: a) (simp_all add: ex_cycle_def)

text \<open>
  Claim C10. For a box whose parent reference is nil, \<^verbatim>\<open>Top\<close> returns nil, not the box.
\<close>

theorem Top_of_root_is_nil: "parent (h d) = None \<Longrightarrow> Draw_Top h d = None"
  by (simp add: Draw_Top_def)

theorem Top_of_root_is_nil_witness: "parent (ex_chain 0) = None \<and> Draw_Top ex_chain 0 = None"
  using Top_of_root_is_nil[of ex_chain 0] by (simp add: ex_chain_def)

text \<open>
  Claim C6. \<^verbatim>\<open>Top\<close> walks the parent chain to the top, and its loop runs at most 50 times.
  On a chain of three boxes (\<open>a\<close>, its parent \<open>b\<close>, and the root \<open>c\<close>) it returns the root;
  so it does on every chain whose root is between 1 and 51 parent links away. On every heap,
  also a cyclic one, the loop makes at most 50 hops, after the step from the box to its
  parent that \<^verbatim>\<open>Top\<close> starts with; on a chain that never reaches a root it makes exactly
  50 and returns the box 51 parent links away.
\<close>

theorem Top_bounded_walk:
  "(parent (h a) = Some b \<and> parent (h b) = Some c \<and> parent (h c) = None \<longrightarrow> Draw_Top h a = Some c)
   \<and> (1 \<le> k \<and> k \<le> 51 \<and> ancestor h k a = Some r \<and> parent (h r) = None \<longrightarrow> Draw_Top h a = Some r)
   \<and> Top_hops g d \<le> 50
   \<and> ((\<forall>n. ancestor g n d \<noteq> None) \<longrightarrow> Top_hops g d = 50 \<and> Draw_Top g d = ancestor g 51 d)"
proof -
  have p1: "Draw_Top h a = Some c"
    if "parent (h a) = Some b \<and> parent (h b) = Some c \<and> parent (h c) = None"
  proof -
    from that have "ancestor h 1 b = Some c" "parent (h c) = None" "parent (h a) = Some b"
      by simp_all
    then show ?thesis
      using Top_loop_root[of h 1 b c 50] by (simp add: Draw_Top_def)
  qed
  have p2: "Draw_Top h a = Some r"
    if k: "1 \<le> k \<and> k \<le> 51 \<and> ancestor h k a = Some r \<and> parent (h r) = None"
  proof -
    from k obtain k' where k': "k = Suc k'" by (cases k) auto
    with k obtain t where t: "parent (h a) = Some t" "ancestor h k' t = Some r"
      by (auto split: option.splits)
    from k k' have "k' \<le> 50" by simp
    with t k show ?thesis
      using Top_loop_root[of h k' t r 50] by (simp add: Draw_Top_def)
  qed
  have p3: "Top_hops g d \<le> 50"
    using Top_loop_hops[of g 50] by (simp add: Top_hops_def split: option.splits)
  have p4: "Top_hops g d = 50 \<and> Draw_Top g d = ancestor g 51 d"
    if inf: "\<forall>n. ancestor g n d \<noteq> None"
  proof -
    from inf have "ancestor g 52 d \<noteq> None" by blast
    then obtain t where t: "parent (g d) = Some t" "ancestor g 51 t \<noteq> None"
      by (auto simp add: eval_nat_numeral split: option.splits)
    then have "Top_loop g 50 t = (the (ancestor g 50 t), 50)"
      using Top_loop_full[of g 50 t] by (simp add: eval_nat_numeral)
    moreover have "ancestor g 51 d = ancestor g 50 t"
      using t(1) by (simp add: eval_nat_numeral)
    moreover have "ancestor g 50 t \<noteq> None"
      using inf[rule_format, of 51] t(1) by (simp add: eval_nat_numeral)
    ultimately show ?thesis
      using t(1) by (auto simp add: Top_hops_def Draw_Top_def)
  qed
  show ?thesis using p1 p2 p3 p4 by blast
qed

theorem Top_bounded_walk_witness:
  "(parent (ex_chain 2) = Some 1 \<and> parent (ex_chain 1) = Some 0 \<and> parent (ex_chain 0) = None)
   \<and> Draw_Top ex_chain 2 = Some 0
   \<and> (1::nat) \<le> 2 \<and> (2::nat) \<le> 51 \<and> ancestor ex_chain 2 2 = Some 0
   \<and> (\<forall>n. ancestor ex_cycle n 0 \<noteq> None)
   \<and> Top_hops ex_cycle 0 = 50 \<and> Draw_Top ex_cycle 0 = ancestor ex_cycle 51 0"
proof -
  have c: "parent (ex_chain 2) = Some 1 \<and> parent (ex_chain 1) = Some 0 \<and> parent (ex_chain 0) = None"
    by (simp add: ex_chain_def)
  have a: "ancestor ex_chain 2 2 = Some 0"
    by (simp add: eval_nat_numeral ex_chain_def)
  have i: "\<forall>n. ancestor ex_cycle n 0 \<noteq> None"
    by (simp add: ex_cycle_ancestor)
  show ?thesis
    using Top_bounded_walk[of ex_chain 2 1 0 2 0 ex_cycle 0] c a i by simp
qed

section \<open>The coordinate box: the primitives\<close>

lemma lineStroke_loop_rest:
  "lineStroke_loop d (Suc i) points r =
     r @ map (\<lambda>q. LineTo (X q + Left (Box d)) (Y q + Top (Box d))) points"
  by (induction points arbitrary: i r) (simp_all add: lineTo_def)

text \<open>
  Claim C4 says that \<^verbatim>\<open>setBackground\<close> too translates its coordinates by the offset of the
  box. It does not: on the box at offset \<open>(10, 20)\<close> it traces the corners \<open>(0, 0)\<close>,
  \<open>(100, 0)\<close>, \<open>(100, 50)\<close>, \<open>(0, 50)\<close> themselves, not what \<^verbatim>\<open>moveTo\<close> and \<^verbatim>\<open>lineTo\<close> of
  the box make of them.
\<close>

theorem setBackground_untranslated_counterexample:
  "setBackground ex_box 100 50 (RGBA 255 255 255 255) [] \<noteq>
     [WriteToRenderer (RGBA 255 255 255 255)]
     @ moveTo ex_box 0 0 [] @ lineTo ex_box 100 0 [] @ lineTo ex_box 100 50 []
     @ lineTo ex_box 0 50 [] @ lineTo ex_box 0 0 [] @ [FillStroke]"
  by (simp add: setBackground_def moveTo_def lineTo_def ex_box_def)

text \<open>
  Claim C4, amended. \<^verbatim>\<open>moveTo\<close>, \<^verbatim>\<open>lineTo\<close>, \<^verbatim>\<open>circle\<close> and \<^verbatim>\<open>text\<close> translate their
  coordinates by \<open>(left, top)\<close> of the box before they call the renderer; \<^verbatim>\<open>lineStroke\<close>
  with a style that draws a stroke moves to the first point and draws a line to each
  further point, every point translated by \<open>(left, top)\<close>, and makes no call with a style
  that draws none; \<^verbatim>\<open>setBackground\<close> traces \<open>(0, 0)\<close>, \<open>(width, 0)\<close>, \<open>(width, height)\<close>,
  \<open>(0, height)\<close>, \<open>(0, 0)\<close> in the coordinates of the renderer, whatever the box.
\<close>

theorem primitives_translate_but_setBackground:
  "moveTo d x y r = r @ [MoveTo (x + Left (Box d)) (y + Top (Box d))]
   \<and> lineTo d x y r = r @ [LineTo (x + Left (Box d)) (y + Top (Box d))]
   \<and> circle d radius x y r = r @ [Circle radius (x + Left (Box d)) (y + Top (Box d))]
   \<and> Draw_text d body x y r = r @ [Text body (x + Left (Box d)) (y + Top (Box d))]
   \<and> lineStroke d points style r =
       (if ShouldDrawStroke style
        then r @ [WriteDrawingOptionsToRenderer (StrokeOptions style)]
               @ (case points of
                    [] \<Rightarrow> []
                  | p # ps \<Rightarrow> MoveTo (X p + Left (Box d)) (Y p + Top (Box d))
                             # map (\<lambda>q. LineTo (X q + Left (Box d)) (Y q + Top (Box d))) ps)
               @ [Stroke]
        else r)
   \<and> setBackground d width height color r =
       r @ [WriteToRenderer color, MoveTo 0 0, LineTo width 0, LineTo width height,
            LineTo 0 height, LineTo 0 0, FillStroke]
   \<and> setBackground d width height color r = setBackground d' width height color r"
  by (cases points)
     (simp_all add: moveTo_def lineTo_def circle_def Draw_text_def lineStroke_def
        setBackground_def lineStroke_loop_rest)

section \<open>The bar chart: the width of a bar\<close>

lemma quo_nonneg: "0 \<le> a \<Longrightarrow> 0 < b \<Longrightarrow> quo a b = a div b"
  by (simp add: quo_def sgn_if)

lemma div_times_le: "0 < (b::int) \<Longrightarrow> a div b * b \<le> a"
  using div_mult_mod_eq[of a b] pos_mod_sign[of b a] by linarith

lemma i64_mod: "i64 x mod 2 ^ 64 = x mod 2 ^ 64"
proof -
  have "i64 x mod 2 ^ 64 = (x + 2 ^ 63 - 2 ^ 63) mod 2 ^ 64"
    unfolding i64_def by (rule mod_diff_left_eq)
  then show ?thesis by (simp only: add_diff_cancel_right')
qed

lemma i64_cong: "x mod 2 ^ 64 = y mod 2 ^ 64 \<Longrightarrow> i64 x = i64 y"
proof -
  assume e: "x mod 2 ^ 64 = y mod 2 ^ 64"
  have "(x + 2 ^ 63) mod 2 ^ 64 = (x mod 2 ^ 64 + 2 ^ 63) mod 2 ^ 64"
    by (rule mod_add_left_eq[symmetric])
  also have "\<dots> = (y mod 2 ^ 64 + 2 ^ 63) mod 2 ^ 64" by (simp only: e)
  also have "\<dots> = (y + 2 ^ 63) mod 2 ^ 64" by (rule mod_add_left_eq)
  finally show ?thesis by (simp only: i64_def)
qed

lemma i64_id: "- (2 ^ 63) \<le> x \<Longrightarrow> x < 2 ^ 63 \<Longrightarrow> i64 x = x"
  by (simp add: i64_def)

lemma i64_dividend:
  "i64 (i64 (w - i64 (2 * m)) - i64 (bm * i64 (c - 1))) = i64 (w - 2 * m - bm * (c - 1))"
proof (rule i64_cong)
  have a0: "(w - i64 (2 * m)) mod 2 ^ 64 = (w - 2 * m) mod 2 ^ 64"
    by (rule mod_diff_cong[OF refl i64_mod])
  have a: "i64 (w - i64 (2 * m)) mod 2 ^ 64 = (w - 2 * m) mod 2 ^ 64"
    by (simp only: i64_mod a0)
  have b0: "(bm * i64 (c - 1)) mod 2 ^ 64 = (bm * (c - 1)) mod 2 ^ 64"
    by (rule mod_mult_cong[OF refl i64_mod])
  have b: "i64 (bm * i64 (c - 1)) mod 2 ^ 64 = (bm * (c - 1)) mod 2 ^ 64"
    by (simp only: i64_mod b0)
  show "(i64 (w - i64 (2 * m)) - i64 (bm * i64 (c - 1))) mod 2 ^ 64
          = (w - 2 * m - bm * (c - 1)) mod 2 ^ 64"
    using a b by (rule mod_diff_cong)
qed


lemma barWidth_of_least:
  "barWidth_of (- (2 ^ 63)) 4 = Inr 2305843009213693949"
proof -
  have m: "margins (- (2 ^ 63)) = (2, 2)" by (simp add: margins_def)
  have s1: "i64 4 = 4" "i64 3 = 3" "i64 6 = 6" by (simp_all add: i64_def)
  have s2: "i64 (- 9223372036854775812) = 9223372036854775804" by (simp add: i64_def)
  have s3: "i64 9223372036854775798 = 9223372036854775798" by (simp add: i64_def)
  have s4: "quo 9223372036854775798 4 = 2305843009213693949" by (simp add: quo_def)
  have "barWidth_of (- (2 ^ 63)) 4 =
      Inr (quo (i64 (i64 (- (2 ^ 63) - i64 (2 * 2)) - i64 (2 * i64 (int 4 - 1)))) (int 4))"
    unfolding barWidth_of_def m by simp
  also have "\<dots> = Inr 2305843009213693949"
    by (simp add: s1 s2 s3 s4)
  finally show ?thesis .
qed

lemma barWidth_of_narrow: "barWidth_of 3 2 = Inr (- 1)"
proof -
  have m: "margins 3 = (2, 2)" by (simp add: margins_def)
  have s1: "i64 4 = 4" "i64 1 = 1" "i64 2 = 2" "i64 (- 1) = - 1" "i64 (- 3) = - 3"
    by (simp_all add: i64_def)
  have s4: "quo (- 3) 2 = - 1" by (simp add: quo_def)
  have "barWidth_of 3 2 =
      Inr (quo (i64 (i64 (3 - i64 (2 * 2)) - i64 (2 * i64 (int 2 - 1)))) (int 2))"
    unfolding barWidth_of_def m by simp
  also have "\<dots> = Inr (- 1)"
    by (simp add: s1 s4)
  finally show ?thesis .
qed

lemma barWidth_of_wide: "barWidth_of 100 2 = Inr 37"
proof -
  have m: "margins 100 = (10, 5)" by (simp add: margins_def)
  have s1: "i64 20 = 20" "i64 1 = 1" "i64 5 = 5" "i64 80 = 80" "i64 75 = 75"
    by (simp_all add: i64_def)
  have s4: "quo 75 2 = 37" by (simp add: quo_def)
  have "barWidth_of 100 2 =
      Inr (quo (i64 (i64 (100 - i64 (2 * 10)) - i64 (5 * i64 (int 2 - 1)))) (int 2))"
    unfolding barWidth_of_def m by simp
  also have "\<dots> = Inr 37"
    by (simp add: s1 s4)
  finally show ?thesis .
qed

text \<open>
  Claim C1 says that the bar width is the floor of the quotient, and that the packing
  inequality holds for every width. Go's division rounds towards zero: for a slot 3 wide
  and two series the dividend is \<open>3 - 2 * 2 - 2 * 1 = -3\<close>, \<^verbatim>\<open>render\<close> computes \<open>-1\<close>, and
  the floor is \<open>-2\<close>. And Go's subtraction wraps around: for the least width of the range
  and four series the dividend \<open>- 2 ^ 63 - 10\<close> becomes \<open>2 ^ 63 - 10\<close>, the bar width is
  positive, and the bars with their margins are far wider than the slot.
\<close>

theorem barWidth_floor_counterexample:
  "barWidth_of 3 2 \<noteq> Inr ((3 - 2 * fst (margins 3) - snd (margins 3) * (int 2 - 1)) div int 2)
   \<and> barWidth_of 3 2 = Inr (- 1)
   \<and> (3 - 2 * fst (margins 3) - snd (margins 3) * (int 2 - 1)) div int 2 = - 2
   \<and> barWidth_of (- (2 ^ 63)) 4 = Inr 2305843009213693949
   \<and> \<not> (2305843009213693949 * int 4 + snd (margins (- (2 ^ 63))) * (int 4 - 1)
           + 2 * fst (margins (- (2 ^ 63))) \<le> - (2 ^ 63))"
proof -
  have m: "margins 3 = (2, 2)" "margins (- (2 ^ 63)) = (2, 2)" by (simp_all add: margins_def)
  have f: "(3 - 2 * fst (margins 3) - snd (margins 3) * (int 2 - 1)) div int 2 = - 2"
    unfolding m by simp
  have p: "\<not> (2305843009213693949 * int 4 + snd (margins (- (2 ^ 63))) * (int 4 - 1)
           + 2 * fst (margins (- (2 ^ 63))) \<le> - (2 ^ 63))"
    unfolding m by simp
  show ?thesis
    unfolding f barWidth_of_narrow barWidth_of_least using p by simp
qed

text \<open>
  Claim C1, amended. For every series count \<open>n \<ge> 1\<close> and every width \<open>w\<close> of a category
  slot (the variable \<^verbatim>\<open>width\<close>, from which \<^verbatim>\<open>margin\<close> and \<^verbatim>\<open>barMargin\<close> are derived by the
  thresholds) that is a 64-bit integer and from which the dividend
  \<open>w - 2 * margin - barMargin * (n - 1)\<close> does not fall below the 64-bit range, the bar
  width is the dividend divided by \<open>n\<close> and rounded towards zero; it is the floor of the
  quotient whenever the dividend is not negative; and whenever the bar width is positive,
  \<open>barWidth * n + barMargin * (n - 1) + 2 * margin \<le> w\<close>.
\<close>

theorem barWidth_truncated_and_packed:
  assumes "1 \<le> n" and "- (2 ^ 63) \<le> w" and "w < 2 ^ 63"
    and "- (2 ^ 63) \<le> w - 2 * fst (margins w) - snd (margins w) * (int n - 1)"
  shows "barWidth_of w n = Inr (quo (w - 2 * fst (margins w) - snd (margins w) * (int n - 1)) (int n))
    \<and> (0 \<le> w - 2 * fst (margins w) - snd (margins w) * (int n - 1) \<longrightarrow>
         barWidth_of w n = Inr ((w - 2 * fst (margins w) - snd (margins w) * (int n - 1)) div int n))
    \<and> (\<forall>bw. barWidth_of w n = Inr bw \<and> 0 < bw \<longrightarrow>
         bw * int n + snd (margins w) * (int n - 1) + 2 * fst (margins w) \<le> w)"
proof -
  let ?num = "w - 2 * fst (margins w) - snd (margins w) * (int n - 1)"
  have n: "0 < int n" using assms(1) by simp
  have m: "0 \<le> fst (margins w)" "0 \<le> snd (margins w)" by (simp_all add: margins_def)
  have "0 \<le> snd (margins w) * (int n - 1)" using m(2) n by simp
  with m(1) assms(3) have "?num < 2 ^ 63" by linarith
  with assms(4) have wrap: "i64 ?num = ?num" by (rule i64_id)
  have bw: "barWidth_of w n = Inr (quo ?num (int n))"
    using assms(1) by (simp add: barWidth_of_def split_beta Let_def i64_dividend wrap)
  have fl: "0 \<le> ?num \<Longrightarrow> quo ?num (int n) = ?num div int n"
    using n by (simp add: quo_nonneg)
  have pack: "bw * int n + snd (margins w) * (int n - 1) + 2 * fst (margins w) \<le> w"
    if "barWidth_of w n = Inr bw" "0 < bw" for bw
  proof -
    have q: "bw = quo ?num (int n)" using that(1) bw by simp
    have "0 \<le> ?num"
    proof (rule ccontr)
      assume "\<not> 0 \<le> ?num"
      then have "?num < 0" by simp
      then have "quo ?num (int n) \<le> 0"
        using n by (simp add: quo_def sgn_if div_int_pos_iff)
      with q that(2) show False by simp
    qed
    then have b: "bw = ?num div int n" using q fl by simp
    have "bw * int n \<le> ?num" unfolding b using n by (rule div_times_le)
    then show ?thesis by simp
  qed
  show ?thesis using bw fl pack by auto
qed

theorem barWidth_truncated_and_packed_witness:
  "(1::nat) \<le> 2 \<and> - (2 ^ 63) \<le> (100::int) \<and> (100::int) < 2 ^ 63
   \<and> - (2 ^ 63) \<le> 100 - 2 * fst (margins 100) - snd (margins 100) * (int 2 - 1)
   \<and> 0 \<le> 100 - 2 * fst (margins 100) - snd (margins 100) * (int 2 - 1)
   \<and> barWidth_of 100 2 = Inr ((100 - 2 * fst (margins 100) - snd (margins 100) * (int 2 - 1)) div int 2)
   \<and> barWidth_of 100 2 = Inr 37 \<and> (0::int) < 37
   \<and> (37::int) * int 2 + snd (margins 100) * (int 2 - 1) + 2 * fst (margins 100) \<le> 100"
  using barWidth_truncated_and_packed[of 2 100] by (simp add: margins_def quo_def)

section \<open>The bar chart: the inner loop\<close>

lemma shr_1: "shr a (Suc 0) = a div 2"
  by (simp add: shr_def drop_bit_eq_div)

lemma render_item_points:
  "fst (render_item e l index series j item points st) =
     points[j := \<lparr>X = bar_left e l index j + l_barWidth l div 2, Y = bar_top e l series item\<rparr>]"
  by (simp add: render_item_def Let_def bar_left_def bar_top_def shr_1)

lemma render_item_panicked:
  "panicked (snd (render_item e l index series j item points st)) = panicked st"
  by (simp add: render_item_def Let_def)

lemma render_item_markPoints:
  "markPoints (snd (render_item e l index series j item points st)) = markPoints st"
  by (simp add: render_item_def Let_def)

lemma render_item_calls:
  "\<exists>cs. calls (snd (render_item e l index series j item points st)) = calls st @ cs
     \<and> (\<forall>c\<in>set cs. \<not> is_Text c)
     \<and> Rect \<lparr>Top = bar_top e l series item, Left = bar_left e l index j,
              Right = bar_left e l index j + l_barWidth l, Bottom = l_barMaxHeight l - 1\<rparr> \<in> set cs"
  by (simp add: render_item_def Let_def bar_left_def bar_top_def)

lemma render_items_length:
  "length (fst (render_items e l index series j items points st)) = length points"
proof (induction items arbitrary: j points st)
  case Nil
  then show ?case by simp
next
  case (Cons item items)
  show ?case
    using Cons.IH[of "Suc j" points st]
      Cons.IH[of "Suc j" "fst (render_item e l index series j item points st)"
                 "snd (render_item e l index series j item points st)"]
    by (simp add: split_beta render_item_points)
qed

lemma render_items_skipped:
  "divideCount e \<le> int k \<Longrightarrow>
   fst (render_items e l index series j items points st) ! k = points ! k"
proof (induction items arbitrary: j points st)
  case Nil
  then show ?case by simp
next
  case (Cons item items)
  show ?case
  proof (cases "divideCount e \<le> int j")
    case True
    then show ?thesis using Cons.IH[OF Cons.prems, of "Suc j" points st] by simp
  next
    case False
    with Cons.prems have "k \<noteq> j" by auto
    then show ?thesis
      using False
        Cons.IH[OF Cons.prems, of "Suc j" "fst (render_item e l index series j item points st)"
                 "snd (render_item e l index series j item points st)"]
      by (simp add: split_beta render_item_points)
  qed
qed

lemma render_items_earlier:
  "k < j \<Longrightarrow> fst (render_items e l index series j items points st) ! k = points ! k"
proof (induction items arbitrary: j points st)
  case Nil
  then show ?case by simp
next
  case (Cons item items)
  from Cons.prems have lt: "k < Suc j" and ne: "k \<noteq> j" by auto
  show ?case
    using ne Cons.IH[OF lt, of points st]
      Cons.IH[OF lt, of "fst (render_item e l index series j item points st)"
                 "snd (render_item e l index series j item points st)"]
    by (simp add: split_beta render_item_points)
qed

lemma render_items_markPoints:
  "markPoints (snd (render_items e l index series j items points st)) = markPoints st"
proof (induction items arbitrary: j points st)
  case Nil
  then show ?case by simp
next
  case (Cons item items)
  show ?case
    using Cons.IH[of "Suc j" points st]
      Cons.IH[of "Suc j" "fst (render_item e l index series j item points st)"
                 "snd (render_item e l index series j item points st)"]
    by (simp add: split_beta render_item_markPoints)
qed

lemma render_items_calls:
  "\<exists>cs. calls (snd (render_items e l index series j items points st)) = calls st @ cs
     \<and> (\<forall>c\<in>set cs. \<not> is_Text c)"
proof (induction items arbitrary: j points st)
  case Nil
  then show ?case by simp
next
  case (Cons item items)
  let ?p = "fst (render_item e l index series j item points st)"
  let ?s = "snd (render_item e l index series j item points st)"
  show ?case
  proof (cases "divideCount e \<le> int j")
    case True
    then show ?thesis using Cons.IH[of "Suc j" points st] by simp
  next
    case False
    show ?thesis
    proof (cases "length (AutoDivide e) \<le> j")
      case True
      with False show ?thesis by simp
    next
      case inrange: False
      obtain cs1 where cs1: "calls ?s = calls st @ cs1" "\<forall>c\<in>set cs1. \<not> is_Text c"
        using render_item_calls[of e l index series j item points st] by blast
      obtain cs2 where cs2:
        "calls (snd (render_items e l index series (Suc j) items ?p ?s)) = calls ?s @ cs2"
        "\<forall>c\<in>set cs2. \<not> is_Text c"
        using Cons.IH[of "Suc j" ?p ?s] by blast
      have "calls (snd (render_items e l index series j (item # items) points st))
            = calls st @ (cs1 @ cs2)"
        using False inrange cs1(1) cs2(1) by (simp add: split_beta)
      moreover have "\<forall>c\<in>set (cs1 @ cs2). \<not> is_Text c"
        using cs1(2) cs2(2) by auto
      ultimately show ?thesis by blast
    qed
  qed
qed

lemma render_items_drawn:
  "panicked (snd (render_items e l index series j items points st)) = None \<Longrightarrow>
   j \<le> k \<Longrightarrow> k < j + length items \<Longrightarrow> int k < divideCount e \<Longrightarrow> k < length points \<Longrightarrow>
   fst (render_items e l index series j items points st) ! k =
     \<lparr>X = bar_left e l index k + l_barWidth l div 2, Y = bar_top e l series (items ! (k - j))\<rparr>
   \<and> Rect \<lparr>Top = bar_top e l series (items ! (k - j)), Left = bar_left e l index k,
           Right = bar_left e l index k + l_barWidth l, Bottom = l_barMaxHeight l - 1\<rparr>
       \<in> set (calls (snd (render_items e l index series j items points st)))"
proof (induction items arbitrary: j points st)
  case Nil
  then show ?case by simp
next
  case (Cons item items)
  let ?p = "fst (render_item e l index series j item points st)"
  let ?s = "snd (render_item e l index series j item points st)"
  let ?R = "render_items e l index series (Suc j) items ?p ?s"
  from Cons.prems(2,4) have dc: "\<not> divideCount e \<le> int j" by simp
  have inrange: "\<not> length (AutoDivide e) \<le> j"
  proof
    assume "length (AutoDivide e) \<le> j"
    with dc Cons.prems(1) show False by simp
  qed
  have unfold: "render_items e l index series j (item # items) points st = ?R"
    using dc inrange by (simp add: split_beta)
  have lp: "length ?p = length points" by (simp add: render_item_points)
  show ?case
  proof (cases "k = j")
    case True
    have "fst ?R ! k = ?p ! k"
      using render_items_earlier[of k "Suc j" e l index series items ?p ?s] True by simp
    also have "\<dots> = \<lparr>X = bar_left e l index k + l_barWidth l div 2, Y = bar_top e l series item\<rparr>"
      using True Cons.prems(5) by (simp add: render_item_points)
    finally have pt: "fst ?R ! k =
        \<lparr>X = bar_left e l index k + l_barWidth l div 2, Y = bar_top e l series item\<rparr>" .
    obtain cs1 where cs1: "calls ?s = calls st @ cs1"
      "Rect \<lparr>Top = bar_top e l series item, Left = bar_left e l index j,
              Right = bar_left e l index j + l_barWidth l, Bottom = l_barMaxHeight l - 1\<rparr> \<in> set cs1"
      using render_item_calls[of e l index series j item points st] by blast
    obtain cs2 where cs2: "calls (snd ?R) = calls ?s @ cs2"
      using render_items_calls[of e l index series "Suc j" items ?p ?s] by blast
    have "Rect \<lparr>Top = bar_top e l series item, Left = bar_left e l index j,
              Right = bar_left e l index j + l_barWidth l, Bottom = l_barMaxHeight l - 1\<rparr>
            \<in> set (calls (snd ?R))"
      using cs1 cs2 by simp
    with pt True show ?thesis unfolding unfold by simp
  next
    case False
    with Cons.prems(2,3) have k: "Suc j \<le> k" "k < Suc j + length items" by auto
    have pan: "panicked (snd ?R) = None" using Cons.prems(1) unfolding unfold .
    have idx: "(item # items) ! (k - j) = items ! (k - Suc j)"
      using k(1) by (simp add: Suc_diff_le nth_Cons')
    from Cons.IH[OF pan k Cons.prems(4)] Cons.prems(5) lp
    show ?thesis unfolding unfold idx by simp
  qed
qed

section \<open>The bar chart: the outer loop\<close>

lemma render_series_Cons:
  "render_series e l index (series # rest) st =
     (let r = render_items e l index series 0 (Data series)
                (replicate (length (Data series)) \<lparr>X = 0, Y = 0\<rparr>) st
      in if panicked (snd r) \<noteq> None then snd r
         else render_series e l (Suc index) rest (registered e series (fst r) (snd r)))"
  by (simp add: Let_def split_beta registered_def)

declare render_series.simps(2) [simp del]

lemma registered_simps:
  "calls (registered e series points st) = calls st"
  "panicked (registered e series points st) = panicked st"
  "markPoints (registered e series points st) = markPoints st @
     [\<lparr>PointFillColor = GetSeriesColor e (series_index series), PointFont = opt_Font e,
       PointSeries = series, Points = points\<rparr>]"
  by (simp_all add: registered_def)

lemma render_series_calls:
  "\<exists>cs. calls (render_series e l index ss st) = calls st @ cs \<and> (\<forall>c\<in>set cs. \<not> is_Text c)"
proof (induction ss arbitrary: index st)
  case Nil
  then show ?case by simp
next
  case (Cons series rest)
  let ?r = "render_items e l index series 0 (Data series)
              (replicate (length (Data series)) \<lparr>X = 0, Y = 0\<rparr>) st"
  obtain cs1 where cs1: "calls (snd ?r) = calls st @ cs1" "\<forall>c\<in>set cs1. \<not> is_Text c"
    using render_items_calls by blast
  show ?case
  proof (cases "panicked (snd ?r) \<noteq> None")
    case True
    then show ?thesis using cs1 by (simp add: render_series_Cons Let_def)
  next
    case False
    obtain cs2 where cs2:
      "calls (render_series e l (Suc index) rest (registered e series (fst ?r) (snd ?r)))
         = calls (registered e series (fst ?r) (snd ?r)) @ cs2"
      "\<forall>c\<in>set cs2. \<not> is_Text c"
      using Cons.IH by blast
    have "calls (render_series e l index (series # rest) st) = calls st @ (cs1 @ cs2)"
      using False cs1(1) cs2(1)
      by (simp add: render_series_Cons Let_def registered_simps)
    moreover have "\<forall>c\<in>set (cs1 @ cs2). \<not> is_Text c" using cs1(2) cs2(2) by auto
    ultimately show ?thesis by blast
  qed
qed

lemma render_series_markPoints:
  "\<exists>n ms. n \<le> length ss \<and> length ms = n
     \<and> markPoints (render_series e l index ss st) = markPoints st @ ms
     \<and> map PointSeries ms = take n ss
     \<and> (\<forall>i<n. length (Points (ms ! i)) = length (Data (ss ! i))
            \<and> (\<forall>j. divideCount e \<le> int j \<and> j < length (Data (ss ! i)) \<longrightarrow>
                   Points (ms ! i) ! j = \<lparr>X = 0, Y = 0\<rparr>))
     \<and> (panicked (render_series e l index ss st) = None \<longrightarrow> n = length ss)"
proof (induction ss arbitrary: index st)
  case Nil
  then show ?case by simp
next
  case (Cons series rest)
  let ?z = "replicate (length (Data series)) \<lparr>X = 0, Y = 0\<rparr>"
  let ?r = "render_items e l index series 0 (Data series) ?z st"
  have mp1: "markPoints (snd ?r) = markPoints st" by (rule render_items_markPoints)
  show ?case
  proof (cases "panicked (snd ?r) \<noteq> None")
    case True
    then have "render_series e l index (series # rest) st = snd ?r"
      by (simp add: render_series_Cons Let_def)
    then show ?thesis using mp1 True by (intro exI[of _ 0] exI[of _ "[]"]) simp
  next
    case False
    let ?st2 = "registered e series (fst ?r) (snd ?r)"
    let ?m = "\<lparr>PointFillColor = GetSeriesColor e (series_index series), PointFont = opt_Font e,
               PointSeries = series, Points = fst ?r\<rparr>"
    have step: "render_series e l index (series # rest) st = render_series e l (Suc index) rest ?st2"
      using False by (simp add: render_series_Cons Let_def)
    obtain n ms where ih: "n \<le> length rest" "length ms = n"
      "markPoints (render_series e l (Suc index) rest ?st2) = markPoints ?st2 @ ms"
      "map PointSeries ms = take n rest"
      "\<forall>i<n. length (Points (ms ! i)) = length (Data (rest ! i))
            \<and> (\<forall>j. divideCount e \<le> int j \<and> j < length (Data (rest ! i)) \<longrightarrow>
                   Points (ms ! i) ! j = \<lparr>X = 0, Y = 0\<rparr>)"
      "panicked (render_series e l (Suc index) rest ?st2) = None \<longrightarrow> n = length rest"
      using Cons.IH[of "Suc index" ?st2] by (elim exE conjE) (rule that, assumption+)
    have len: "length (fst ?r) = length (Data series)"
      by (simp add: render_items_length)
    have zero: "\<forall>j. divideCount e \<le> int j \<and> j < length (Data series) \<longrightarrow>
                  fst ?r ! j = \<lparr>X = 0, Y = 0\<rparr>"
      by (simp add: render_items_skipped)
    have a: "Suc n \<le> length (series # rest)" using ih(1) by simp
    have b: "length (?m # ms) = Suc n" using ih(2) by simp
    have c: "markPoints (render_series e l index (series # rest) st) = markPoints st @ (?m # ms)"
      using ih(3) mp1 by (simp add: step registered_simps)
    have d: "map PointSeries (?m # ms) = take (Suc n) (series # rest)"
      using ih(4) by simp
    have f: "\<forall>i<Suc n. length (Points ((?m # ms) ! i)) = length (Data ((series # rest) ! i))
            \<and> (\<forall>j. divideCount e \<le> int j \<and> j < length (Data ((series # rest) ! i)) \<longrightarrow>
                   Points ((?m # ms) ! i) ! j = \<lparr>X = 0, Y = 0\<rparr>)"
    proof (intro allI impI)
      fix i assume "i < Suc n"
      show "length (Points ((?m # ms) ! i)) = length (Data ((series # rest) ! i))
            \<and> (\<forall>j. divideCount e \<le> int j \<and> j < length (Data ((series # rest) ! i)) \<longrightarrow>
                   Points ((?m # ms) ! i) ! j = \<lparr>X = 0, Y = 0\<rparr>)"
      proof (cases i)
        case 0
        then show ?thesis using len zero by simp
      next
        case (Suc i')
        with \<open>i < Suc n\<close> have "i' < n" by simp
        with ih(5) Suc show ?thesis by simp
      qed
    qed
    have g: "panicked (render_series e l index (series # rest) st) = None
               \<longrightarrow> Suc n = length (series # rest)"
      using ih(6) by (simp add: step)
    show ?thesis
      by (rule exI[of _ "Suc n"], rule exI[of _ "?m # ms"]) (intro conjI a b c d f g)
  qed
qed

lemma render_series_drawn:
  "panicked (render_series e l index ss st) = None \<Longrightarrow>
   i < length ss \<Longrightarrow> j < length (Data (ss ! i)) \<Longrightarrow> int j < divideCount e \<Longrightarrow>
   Points (markPoints (render_series e l index ss st) ! (length (markPoints st) + i)) ! j =
     \<lparr>X = bar_left e l (index + i) j + l_barWidth l div 2,
      Y = bar_top e l (ss ! i) (Data (ss ! i) ! j)\<rparr>
   \<and> Rect \<lparr>Top = bar_top e l (ss ! i) (Data (ss ! i) ! j), Left = bar_left e l (index + i) j,
           Right = bar_left e l (index + i) j + l_barWidth l, Bottom = l_barMaxHeight l - 1\<rparr>
       \<in> set (calls (render_series e l index ss st))"
proof (induction ss arbitrary: index st i)
  case Nil
  then show ?case by simp
next
  case (Cons series rest)
  let ?z = "replicate (length (Data series)) \<lparr>X = 0, Y = 0\<rparr>"
  let ?r = "render_items e l index series 0 (Data series) ?z st"
  let ?st2 = "registered e series (fst ?r) (snd ?r)"
  let ?m = "\<lparr>PointFillColor = GetSeriesColor e (series_index series), PointFont = opt_Font e,
             PointSeries = series, Points = fst ?r\<rparr>"
  let ?R = "render_series e l (Suc index) rest ?st2"
  have nopanic: "panicked (snd ?r) = None"
  proof (rule ccontr)
    assume "panicked (snd ?r) \<noteq> None"
    then have "render_series e l index (series # rest) st = snd ?r"
      by (simp add: render_series_Cons Let_def)
    with Cons.prems(1) \<open>panicked (snd ?r) \<noteq> None\<close> show False by simp
  qed
  then have step: "render_series e l index (series # rest) st = ?R"
    by (simp add: render_series_Cons Let_def)
  have mp1: "markPoints (snd ?r) = markPoints st" by (rule render_items_markPoints)
  have mp2: "markPoints ?st2 = markPoints st @ [?m]" by (simp add: registered_simps mp1)
  show ?case
  proof (cases i)
    case 0
    obtain ms where ms: "markPoints ?R = markPoints ?st2 @ ms"
      using render_series_markPoints[of rest e l "Suc index" ?st2] by (elim exE conjE)
    have at: "markPoints ?R ! length (markPoints st) = ?m"
      by (simp add: ms mp2)
    obtain cs where cs: "calls ?R = calls ?st2 @ cs"
      using render_series_calls[of e l "Suc index" rest ?st2] by (elim exE conjE)
    have j: "j < length (Data series)" using Cons.prems(3) 0 by simp
    from render_items_drawn[OF nopanic, of j] j Cons.prems(4)
    have d: "fst ?r ! j =
        \<lparr>X = bar_left e l index j + l_barWidth l div 2, Y = bar_top e l series (Data series ! j)\<rparr>"
      "Rect \<lparr>Top = bar_top e l series (Data series ! j), Left = bar_left e l index j,
           Right = bar_left e l index j + l_barWidth l, Bottom = l_barMaxHeight l - 1\<rparr>
         \<in> set (calls (snd ?r))"
      by simp_all
    from d(2) have "Rect \<lparr>Top = bar_top e l series (Data series ! j), Left = bar_left e l index j,
           Right = bar_left e l index j + l_barWidth l, Bottom = l_barMaxHeight l - 1\<rparr>
         \<in> set (calls ?R)"
      by (simp add: cs registered_simps)
    with d(1) at show ?thesis unfolding step by (simp add: 0)
  next
    case (Suc i')
    have pan: "panicked ?R = None" using Cons.prems(1) unfolding step .
    have i': "i' < length rest" using Cons.prems(2) Suc by simp
    have j: "j < length (Data (rest ! i'))" using Cons.prems(3) Suc by simp
    from Cons.IH[OF pan i' j Cons.prems(4)]
    show ?thesis unfolding step by (simp add: Suc mp2)
  qed
qed

lemma flush_labels_append:
  "flush_labels ls cs =
     cs @ concat (map (\<lambda>labelOpt. [OverrideTextStyle (LabelStyle labelOpt),
            Painter_Text (LabelText labelOpt) (LabelX labelOpt) (LabelY labelOpt)]) ls)"
  by (induction ls arbitrary: cs) simp_all

lemma render_state_layout:
  "layout e sl = Inr l \<Longrightarrow>
   fst (render e sl) =
     (if panicked (render_series e l 0 sl initial_state) = None
      then (render_series e l 0 sl initial_state)
             \<lparr>calls := flush_labels (labelRenderOptions (render_series e l 0 sl initial_state))
                         (calls (render_series e l 0 sl initial_state))\<rparr>
      else render_series e l 0 sl initial_state)"
  by (auto simp add: render_def Let_def split: option.splits)

lemma render_state_no_layout:
  "layout e sl = Inl p \<Longrightarrow> fst (render e sl) = initial_state\<lparr>panicked := Some p\<rparr>"
  by (simp add: render_def)

lemma rects_before_texts:
  assumes "\<forall>c\<in>set as. \<not> is_Text c" and "\<forall>c\<in>set bs. \<not> is_Rect c"
    and "i < length (as @ bs)" and "j < length (as @ bs)"
    and "is_Rect ((as @ bs) ! i)" and "is_Text ((as @ bs) ! j)"
  shows "i < j"
proof -
  have "i < length as"
  proof (rule ccontr)
    assume "\<not> i < length as"
    then have "(as @ bs) ! i = bs ! (i - length as)" "i - length as < length bs"
      using assms(3) by (simp_all add: nth_append)
    with assms(2,5) show False by (metis nth_mem)
  qed
  moreover have "length as \<le> j"
  proof (rule ccontr)
    assume "\<not> length as \<le> j"
    then have "(as @ bs) ! j = as ! j" "j < length as" by (simp_all add: nth_append)
    with assms(1,6) show False by (metis nth_mem)
  qed
  ultimately show ?thesis by simp
qed

lemma render_calls_split:
  "\<exists>as bs. calls (fst (render e sl)) = as @ bs
     \<and> (\<forall>c\<in>set as. \<not> is_Text c) \<and> (\<forall>c\<in>set bs. \<not> is_Rect c)"
proof (cases "layout e sl")
  case (Inl p)
  then have "calls (fst (render e sl)) = [] @ []"
    by (simp add: render_state_no_layout initial_state_def)
  then show ?thesis by (intro exI[of _ "[]"]) simp
next
  case (Inr l)
  let ?st = "render_series e l 0 sl initial_state"
  obtain as where as: "calls ?st = calls initial_state @ as" "\<forall>c\<in>set as. \<not> is_Text c"
    using render_series_calls[of e l 0 sl initial_state] by (elim exE conjE)
  let ?bs = "concat (map (\<lambda>labelOpt. [OverrideTextStyle (LabelStyle labelOpt),
            Painter_Text (LabelText labelOpt) (LabelX labelOpt) (LabelY labelOpt)])
            (labelRenderOptions ?st))"
  have bs: "\<forall>c\<in>set ?bs. \<not> is_Rect c" by auto
  have as': "calls ?st = as" using as(1) by (simp add: initial_state_def)
  show ?thesis
  proof (cases "panicked ?st = None")
    case True
    then have "calls (fst (render e sl)) = as @ ?bs"
      using Inr as' by (simp add: render_state_layout flush_labels_append)
    with as(2) bs show ?thesis by blast
  next
    case False
    then have "calls (fst (render e sl)) = as @ []"
      using Inr as' by (auto simp add: render_state_layout)
    with as(2) show ?thesis by (intro exI[of _ as] exI[of _ "[]"]) simp
  qed
qed

text \<open>
  Claim C3. In every run of \<^verbatim>\<open>render\<close>, for every series list and every label
  configuration, every call that draws a label text comes after every call that draws a
  rectangle: a rectangle at position \<open>i\<close> and a text at position \<open>j\<close> of the calls on the
  series painter have \<open>i < j\<close>. The calls are those of the whole run, also of one that
  panics.
\<close>

theorem labels_after_all_rects:
  assumes "i < length (calls (fst (render e sl)))" and "j < length (calls (fst (render e sl)))"
    and "is_Rect (calls (fst (render e sl)) ! i)" and "is_Text (calls (fst (render e sl)) ! j)"
  shows "i < j"
proof -
  obtain as bs where s: "calls (fst (render e sl)) = as @ bs"
    "\<forall>c\<in>set as. \<not> is_Text c" "\<forall>c\<in>set bs. \<not> is_Rect c"
    using render_calls_split[of e sl] by (elim exE conjE)
  show ?thesis
    using rects_before_texts[OF s(2,3)] assms unfolding s(1) by blast
qed

section \<open>The bar chart: the run\<close>

lemma layout_empty: "layout e [] = Inl DivideByZero"
  by (simp add: layout_def barWidth_of_def split_beta)

lemma layout_nonempty: "sl \<noteq> [] \<Longrightarrow> \<exists>l. layout e sl = Inr l"
  by (simp add: layout_def barWidth_of_def split_beta Let_def)

lemma render_items_no_panic:
  "panicked st = None \<Longrightarrow> divideCount e \<le> int (length (AutoDivide e)) \<Longrightarrow>
   panicked (snd (render_items e l index series j items points st)) = None"
proof (induction items arbitrary: j points st)
  case Nil
  then show ?case by simp
next
  case (Cons item items)
  show ?case
  proof (cases "divideCount e \<le> int j")
    case True
    then show ?thesis using Cons.IH[OF Cons.prems] by simp
  next
    case False
    with Cons.prems(2) have inrange: "\<not> length (AutoDivide e) \<le> j" by simp
    have "panicked (snd (render_item e l index series j item points st)) = None"
      using Cons.prems(1) by (simp add: render_item_panicked)
    from Cons.IH[OF this Cons.prems(2)] False inrange show ?thesis
      by (simp add: split_beta)
  qed
qed

lemma render_series_no_panic:
  "panicked st = None \<Longrightarrow> divideCount e \<le> int (length (AutoDivide e)) \<Longrightarrow>
   panicked (render_series e l index ss st) = None"
proof (induction ss arbitrary: index st)
  case Nil
  then show ?case by simp
next
  case (Cons series rest)
  let ?r = "render_items e l index series 0 (Data series)
              (replicate (length (Data series)) \<lparr>X = 0, Y = 0\<rparr>) st"
  have np: "panicked (snd ?r) = None"
    using Cons.prems by (rule render_items_no_panic)
  then have "panicked (registered e series (fst ?r) (snd ?r)) = None"
    by (simp add: registered_simps)
  from Cons.IH[OF this Cons.prems(2)] np show ?case
    by (simp add: render_series_Cons Let_def)
qed

lemma render_no_panic:
  assumes "sl \<noteq> []" and "divideCount e \<le> int (length (AutoDivide e))"
  shows "panicked (fst (render e sl)) = None"
proof -
  obtain l where l: "layout e sl = Inr l" using layout_nonempty[OF assms(1)] by blast
  have "panicked (render_series e l 0 sl initial_state) = None"
    using assms(2) by (simp add: render_series_no_panic initial_state_def)
  then show ?thesis by (simp add: render_state_layout[OF l])
qed

lemma render_result:
  assumes "panicked (fst (render e sl)) = None"
  shows "snd (render e sl) =
    (case doRender e (markPoints (fst (render e sl))) (markLines (fst (render e sl))) of
       Some err \<Rightarrow> Inr (BoxZero, Some err)
     | None \<Rightarrow> Inr (p_box e, None))"
proof (cases "layout e sl")
  case (Inl p)
  with assms show ?thesis by (simp add: render_state_no_layout)
next
  case (Inr l)
  have "panicked (render_series e l 0 sl initial_state) = None"
    using assms by (simp add: render_state_layout[OF Inr] split: if_splits)
  then show ?thesis using Inr
    by (simp add: render_def Let_def split: option.splits)
qed

lemma render_nonempty_result:
  assumes "sl \<noteq> []" and "divideCount e \<le> int (length (AutoDivide e))"
  shows "snd (render e sl) =
    (case doRender e (markPoints (fst (render e sl))) (markLines (fst (render e sl))) of
       Some err \<Rightarrow> Inr (BoxZero, Some err)
     | None \<Rightarrow> Inr (p_box e, None))"
  using render_result[OF render_no_panic[OF assms]] .

text \<open>
  Claim C7 says that \<^verbatim>\<open>render\<close> fails only when an overlay painter fails, for every
  series list. For the empty series list it does not hold: the division by
  \<^verbatim>\<open>len(seriesList)\<close> panics before anything is drawn, whatever the rest of the input.
  For a series list that is not empty (and \<^verbatim>\<open>AutoDivide\<close> with at least as many values as
  the divide count) \<open>render_nonempty_result\<close> is what the claim says: the error of
  \<^verbatim>\<open>doRender\<close> with the zero box, or the box of the painter and no error.
\<close>

theorem render_empty_seriesList_panics:
  "render e [] = (initial_state\<lparr>panicked := Some DivideByZero\<rparr>, Inl DivideByZero)"
  by (simp add: render_def layout_empty)

lemma render_markPoints:
  "layout e sl = Inr l \<Longrightarrow>
   markPoints (fst (render e sl)) = markPoints (render_series e l 0 sl initial_state)"
  by (simp add: render_state_layout)

lemma render_calls_superset:
  "layout e sl = Inr l \<Longrightarrow>
   set (calls (render_series e l 0 sl initial_state)) \<subseteq> set (calls (fst (render e sl)))"
  by (auto simp add: render_state_layout flush_labels_append)

lemma render_markPoints_length:
  assumes "panicked (fst (render e sl)) = None"
  shows "length (markPoints (fst (render e sl))) = length sl"
proof (cases "layout e sl")
  case (Inl p)
  with assms show ?thesis by (simp add: render_state_no_layout)
next
  case (Inr l)
  let ?st = "render_series e l 0 sl initial_state"
  obtain n ms where m: "length ms = n" "markPoints ?st = markPoints initial_state @ ms"
      "panicked ?st = None \<longrightarrow> n = length sl"
    using render_series_markPoints[of sl e l 0 initial_state]
    by (elim exE conjE) (rule that, assumption+)
  have "panicked ?st = None"
    using assms by (simp add: render_state_layout[OF Inr] split: if_splits)
  with m show ?thesis by (simp add: render_markPoints[OF Inr] initial_state_def)
qed

section \<open>The bar chart: the examples\<close>

lemma shr_one: "shr a 1 = a div 2"
  by (simp add: shr_def drop_bit_eq_div)

lemma ex_layout:
  "layout ex_deps [ex_labelled, ex_plain] =
     Inr \<lparr>l_margin = 10, l_barMargin = 5, l_barWidth = 37, l_barMaxHeight = 150,
          l_seriesNames = [''a'', ''b'']\<rparr>"
proof -
  have n: "length [ex_labelled, ex_plain] = 2" by simp
  have w: "GetRange0_width ex_deps = 100" "seriesPainter_Height ex_deps = 150"
    by (simp_all add: ex_deps_def)
  have m: "margins 100 = (10, 5)" by (simp add: margins_def)
  show ?thesis
    unfolding layout_def Let_def n w barWidth_of_wide m
    by (simp add: ex_labelled_def ex_plain_def)
qed

lemma ex_narrow_layout:
  "layout ex_narrow [ex_labelled, ex_plain] =
     Inr \<lparr>l_margin = 2, l_barMargin = 2, l_barWidth = - 1, l_barMaxHeight = 150,
          l_seriesNames = [''a'', ''b'']\<rparr>"
proof -
  have n: "length [ex_labelled, ex_plain] = 2" by simp
  have w: "GetRange0_width ex_narrow = 3" "seriesPainter_Height ex_narrow = 150"
    by (simp_all add: ex_narrow_def ex_deps_def)
  have m: "margins 3 = (2, 2)" by (simp add: margins_def)
  show ?thesis
    unfolding layout_def Let_def n w barWidth_of_narrow m
    by (simp add: ex_labelled_def ex_plain_def)
qed

lemma ex_calls:
  "calls (fst (render ex_deps [ex_labelled, ex_plain])) =
     [OverrideDrawingStyle (StyleZero\<lparr>FillColor := RGBA 84 112 198 255\<rparr>),
      Rect \<lparr>Top = 75, Left = 10, Right = 47, Bottom = 149\<rparr>,
      MeasureText ''v'',
      OverrideDrawingStyle (StyleZero\<lparr>FillColor := RGBA 84 112 198 255\<rparr>),
      Rect \<lparr>Top = 0, Left = 110, Right = 147, Bottom = 149\<rparr>,
      MeasureText ''v'',
      OverrideDrawingStyle (StyleZero\<lparr>FillColor := RGBA 84 112 198 255\<rparr>),
      Rect \<lparr>Top = 120, Left = 52, Right = 89, Bottom = 149\<rparr>,
      OverrideDrawingStyle (StyleZero\<lparr>FillColor := RGBA 84 112 198 255\<rparr>),
      Rect \<lparr>Top = 0, Left = 152, Right = 189, Bottom = 149\<rparr>,
      OverrideTextStyle \<lparr>FillColor = RGBA 0 0 0 0, FontColor = RGBA 70 70 70 255,
                          FontSize = 10, StyleFont = Some 1\<rparr>,
      Painter_Text ''v'' 25 70,
      OverrideTextStyle \<lparr>FillColor = RGBA 0 0 0 0, FontColor = RGBA 70 70 70 255,
                          FontSize = 10, StyleFont = Some 1\<rparr>,
      Painter_Text ''v'' 125 (- 5)]"
  unfolding render_def ex_layout
  by (simp add: render_series.simps(2) render_item_def Let_def shr_one shr_1
      initial_state_def StyleZero_def ex_deps_def ex_labelled_def ex_plain_def)

lemma ex_markPoints_length:
  "length (markPoints (fst (render ex_deps [ex_labelled, ex_plain]))) = 2"
proof -
  have "panicked (fst (render ex_deps [ex_labelled, ex_plain])) = None"
    by (rule render_no_panic) (simp_all add: ex_deps_def)
  then show ?thesis by (simp add: render_markPoints_length)
qed

section \<open>The bar chart: the claims about a run\<close>

theorem labels_after_all_rects_witness:
  "(9::nat) < length (calls (fst (render ex_deps [ex_labelled, ex_plain])))
   \<and> (11::nat) < length (calls (fst (render ex_deps [ex_labelled, ex_plain])))
   \<and> is_Rect (calls (fst (render ex_deps [ex_labelled, ex_plain])) ! 9)
   \<and> is_Text (calls (fst (render ex_deps [ex_labelled, ex_plain])) ! 11)
   \<and> (9::nat) < 11"
  using labels_after_all_rects[of 9 ex_deps "[ex_labelled, ex_plain]" 11] by (simp add: ex_calls)

text \<open>
  Claim C2. For every bar drawn for an item (series at position \<open>i\<close>, category \<open>j\<close> below
  the divide count), the point handed to the mark point painter is \<open>{x + barWidth/2, top}\<close>,
  where \<open>x\<close> is the left edge of the rectangle drawn and \<open>top = barMaxHeight - h\<close> its top.
  The half is \<^verbatim>\<open>barWidth>>1\<close>, which rounds down for every bar width, also a negative one:
  the point is the middle of the left and the right edge of the rectangle, rounded down.
\<close>

theorem markPoint_is_bar_top_center:
  assumes "layout e sl = Inr l" and "panicked (fst (render e sl)) = None"
    and "i < length sl" and "j < length (Data (sl ! i))" and "int j < divideCount e"
  shows "Points (markPoints (fst (render e sl)) ! i) ! j =
      \<lparr>X = bar_left e l i j + l_barWidth l div 2, Y = bar_top e l (sl ! i) (Data (sl ! i) ! j)\<rparr>
    \<and> Rect \<lparr>Top = bar_top e l (sl ! i) (Data (sl ! i) ! j), Left = bar_left e l i j,
            Right = bar_left e l i j + l_barWidth l, Bottom = l_barMaxHeight l - 1\<rparr>
        \<in> set (calls (fst (render e sl)))
    \<and> 2 * (bar_left e l i j + l_barWidth l div 2) \<le> bar_left e l i j + (bar_left e l i j + l_barWidth l)
    \<and> bar_left e l i j + (bar_left e l i j + l_barWidth l) \<le> 2 * (bar_left e l i j + l_barWidth l div 2) + 1"
proof -
  let ?st = "render_series e l 0 sl initial_state"
  have pan: "panicked ?st = None"
    using assms(2) by (simp add: render_state_layout[OF assms(1)] split: if_splits)
  have "length (markPoints initial_state) = 0" by (simp add: initial_state_def)
  with render_series_drawn[OF pan assms(3,4,5)]
  have d: "Points (markPoints ?st ! i) ! j =
      \<lparr>X = bar_left e l i j + l_barWidth l div 2, Y = bar_top e l (sl ! i) (Data (sl ! i) ! j)\<rparr>"
    "Rect \<lparr>Top = bar_top e l (sl ! i) (Data (sl ! i) ! j), Left = bar_left e l i j,
            Right = bar_left e l i j + l_barWidth l, Bottom = l_barMaxHeight l - 1\<rparr>
        \<in> set (calls ?st)"
    by simp_all
  have r: "Rect \<lparr>Top = bar_top e l (sl ! i) (Data (sl ! i) ! j), Left = bar_left e l i j,
            Right = bar_left e l i j + l_barWidth l, Bottom = l_barMaxHeight l - 1\<rparr>
        \<in> set (calls (fst (render e sl)))"
    using d(2) render_calls_superset[OF assms(1)] by blast
  have "2 * (l_barWidth l div 2) \<le> l_barWidth l" "l_barWidth l \<le> 2 * (l_barWidth l div 2) + 1"
    by presburger+
  then show ?thesis using d(1) r by (simp add: render_markPoints[OF assms(1)])
qed

theorem markPoint_is_bar_top_center_witness:
  "layout ex_narrow [ex_labelled, ex_plain] =
     Inr \<lparr>l_margin = 2, l_barMargin = 2, l_barWidth = - 1, l_barMaxHeight = 150,
          l_seriesNames = [''a'', ''b'']\<rparr>
   \<and> panicked (fst (render ex_narrow [ex_labelled, ex_plain])) = None
   \<and> (1::nat) < length [ex_labelled, ex_plain]
   \<and> 1 < length (Data ([ex_labelled, ex_plain] ! 1))
   \<and> int 1 < divideCount ex_narrow
   \<and> Points (markPoints (fst (render ex_narrow [ex_labelled, ex_plain])) ! 1) ! 1 = \<lparr>X = 5, Y = 0\<rparr>
   \<and> Rect \<lparr>Top = 0, Left = 6, Right = 5, Bottom = 149\<rparr>
       \<in> set (calls (fst (render ex_narrow [ex_labelled, ex_plain])))"
proof -
  let ?l = "\<lparr>l_margin = 2, l_barMargin = 2, l_barWidth = - 1, l_barMaxHeight = 150,
            l_seriesNames = [''a'', ''b'']\<rparr>"
  have p: "panicked (fst (render ex_narrow [ex_labelled, ex_plain])) = None"
    by (rule render_no_panic) (simp_all add: ex_narrow_def ex_deps_def)
  have i: "(1::nat) < length [ex_labelled, ex_plain]" by simp
  have j: "1 < length (Data ([ex_labelled, ex_plain] ! 1))" by (simp add: ex_plain_def)
  have c: "int 1 < divideCount ex_narrow" by (simp add: ex_narrow_def ex_deps_def)
  have bl: "bar_left ex_narrow ?l 1 1 = 6"
    by (simp add: bar_left_def ex_narrow_def ex_deps_def)
  have bt: "bar_top ex_narrow ?l ([ex_labelled, ex_plain] ! 1) (Data ([ex_labelled, ex_plain] ! 1) ! 1) = 0"
    by (simp add: bar_top_def ex_narrow_def ex_deps_def ex_plain_def)
  have "Points (markPoints (fst (render ex_narrow [ex_labelled, ex_plain])) ! 1) ! 1 = \<lparr>X = 5, Y = 0\<rparr>
    \<and> Rect \<lparr>Top = 0, Left = 6, Right = 5, Bottom = 149\<rparr>
       \<in> set (calls (fst (render ex_narrow [ex_labelled, ex_plain])))"
    using markPoint_is_bar_top_center[OF ex_narrow_layout p i j c] unfolding bl bt by simp
  then show ?thesis using ex_narrow_layout p i j c by simp
qed

text \<open>
  Claim C8. What \<^verbatim>\<open>render\<close> hands to the mark point painter for a series has one point
  per item of the series, and at every index at or beyond the divide count the point is
  the zero point \<open>{0, 0}\<close>; the entries are those of the series of the list, in order, and
  a run without a panic hands over one entry for every series.
\<close>

theorem markPoints_one_entry_per_item:
  assumes "i < length (markPoints (fst (render e sl)))"
  shows "i < length sl
    \<and> PointSeries (markPoints (fst (render e sl)) ! i) = sl ! i
    \<and> length (Points (markPoints (fst (render e sl)) ! i)) = length (Data (sl ! i))
    \<and> (\<forall>j. divideCount e \<le> int j \<and> j < length (Data (sl ! i)) \<longrightarrow>
           Points (markPoints (fst (render e sl)) ! i) ! j = \<lparr>X = 0, Y = 0\<rparr>)
    \<and> (panicked (fst (render e sl)) = None \<longrightarrow> length (markPoints (fst (render e sl))) = length sl)"
proof (cases "layout e sl")
  case (Inl p)
  with assms show ?thesis by (simp add: render_state_no_layout initial_state_def)
next
  case (Inr l)
  let ?st = "render_series e l 0 sl initial_state"
  obtain n ms where m: "n \<le> length sl" "length ms = n"
      "markPoints ?st = markPoints initial_state @ ms"
      "map PointSeries ms = take n sl"
      "\<forall>i<n. length (Points (ms ! i)) = length (Data (sl ! i))
            \<and> (\<forall>j. divideCount e \<le> int j \<and> j < length (Data (sl ! i)) \<longrightarrow>
                   Points (ms ! i) ! j = \<lparr>X = 0, Y = 0\<rparr>)"
      "panicked ?st = None \<longrightarrow> n = length sl"
    using render_series_markPoints[of sl e l 0 initial_state]
    by (elim exE conjE) (rule that, assumption+)
  have ms: "markPoints (fst (render e sl)) = ms"
    using m(3) by (simp add: render_markPoints[OF Inr] initial_state_def)
  have i: "i < n" using assms m(2) ms by simp
  have "PointSeries (ms ! i) = map PointSeries ms ! i" using i m(2) by simp
  also have "\<dots> = sl ! i" using i m(1) by (simp add: m(4))
  finally have ps: "PointSeries (ms ! i) = sl ! i" .
  have pan: "panicked (fst (render e sl)) = None \<longrightarrow> panicked ?st = None"
    by (simp add: render_state_layout[OF Inr] split: if_splits)
  show ?thesis using i m(1,2,5,6) ps pan unfolding ms by auto
qed

theorem markPoints_one_entry_per_item_witness:
  "(0::nat) < length (markPoints (fst (render ex_deps [ex_labelled, ex_plain])))
   \<and> PointSeries (markPoints (fst (render ex_deps [ex_labelled, ex_plain])) ! 0) = ex_labelled
   \<and> length (Data ex_labelled) = 3
   \<and> length (Points (markPoints (fst (render ex_deps [ex_labelled, ex_plain])) ! 0)) = 3
   \<and> divideCount ex_deps \<le> int 2 \<and> 2 < length (Data ex_labelled)
   \<and> Points (markPoints (fst (render ex_deps [ex_labelled, ex_plain])) ! 0) ! 2 = \<lparr>X = 0, Y = 0\<rparr>"
proof -
  have h: "0 < length (markPoints (fst (render ex_deps [ex_labelled, ex_plain])))"
    by (simp add: ex_markPoints_length)
  have d: "divideCount ex_deps \<le> int 2 \<and> 2 < length (Data ex_labelled)"
    by (simp add: ex_deps_def ex_labelled_def)
  have n: "length (Data ex_labelled) = 3" by (simp add: ex_labelled_def)
  show ?thesis using markPoints_one_entry_per_item[OF h] h d n by simp
qed

end
